theory Spec2Isabelle
  imports Main
begin

section \<open>Strings as the bookkeeper uses them\<close>

text \<open>
  A JavaScript string is modelled as an Isabelle \<open>string\<close>; every \<open>char\<close> stands for
  one code unit below 256 (ASCII and the Latin-1 supplement). The built-in operations the
  source calls (\<open>trim\<close>, \<open>toLowerCase\<close>, \<open>split(',')\<close>, \<open>Array.prototype.includes\<close>)
  are written out on that range.
\<close>

definition isLineTerminator :: "char \<Rightarrow> bool" where
  \<comment> \<open>LF and CR: what \<open>.\<close> in a regular expression without the \<open>s\<close> flag refuses\<close>
  "isLineTerminator c \<longleftrightarrow> c \<in> set [CHR 0x0A, CHR 0x0D]"

definition isWhiteSpace :: "char \<Rightarrow> bool" where
  \<comment> \<open>\<open>\s\<close> and what \<open>trim\<close> strips: TAB, LF, VT, FF, CR, SP, NBSP\<close>
  "isWhiteSpace c \<longleftrightarrow> c \<in> set [CHR 0x09, CHR 0x0A, CHR 0x0B, CHR 0x0C, CHR 0x0D, CHR 0x20, CHR 0xA0]"

definition isNameChar :: "char \<Rightarrow> bool" where
  \<comment> \<open>the character class \<open>[a-zA-Z, ]\<close>\<close>
  "isNameChar c \<longleftrightarrow> c \<in> set ''abcdefghijklmnopqrstuvwxyzABCDEFGHIJKLMNOPQRSTUVWXYZ, ''"

definition trim :: "string \<Rightarrow> string" where
  "trim s = rev (dropWhile isWhiteSpace (rev (dropWhile isWhiteSpace s)))"

definition lowerChar :: "char \<Rightarrow> char" where
  \<comment> \<open>A-Z and the capital letters of Latin-1 (0xC0-0xDE without the multiplication sign)\<close>
  "lowerChar c =
     (let n = (of_char c :: nat)
      in if (65 \<le> n \<and> n \<le> 90) \<or> (192 \<le> n \<and> n \<le> 222 \<and> n \<noteq> 215)
         then char_of (n + 32) else c)"

definition toLowerCase :: "string \<Rightarrow> string" where
  "toLowerCase s = map lowerChar s"

fun split :: "string \<Rightarrow> string list" where
  \<comment> \<open>\<open>s.split(',')\<close>: the empty string gives one empty piece\<close>
  "split [] = [[]]"
| "split (c # cs) =
     (if c = CHR '','' then [] # split cs
      else (case split cs of [] \<Rightarrow> [[c]] | piece # pieces \<Rightarrow> (c # piece) # pieces))"

definition Array_includes :: "'a list \<Rightarrow> 'a \<Rightarrow> bool" where
  "Array_includes xs x \<longleftrightarrow> x \<in> set xs"

section \<open>Rules\<close>

definition WILDCARD :: string where
  "WILDCARD = ''all''"

definition DEFAULT_REASON :: string where
  "DEFAULT_REASON = ''Ignored using a comment''"

text \<open>
  \<open>IgnoreReason = string | undefined\<close> is \<open>string option\<close>. A rule is either the
  \<open>rootRule\<close> object or an \<open>IgnoreRule\<close> holding its four constructor arguments; line
  numbers are integers.
\<close>

datatype Rule =
    rootRule
  | IgnoreRule (mutatorNames: "string list") (line: "int option")
      (ignoreReason: "string option") (previousRule: Rule)

definition RestoreRule :: "string list \<Rightarrow> int option \<Rightarrow> Rule \<Rightarrow> Rule" where
  \<comment> \<open>the subclass only calls \<open>super\<close> with an undefined reason\<close>
  "RestoreRule names ln previous = IgnoreRule names ln None previous"

definition matches :: "string list \<Rightarrow> int option \<Rightarrow> string \<Rightarrow> int \<Rightarrow> bool" where
  \<comment> \<open>\<open>IgnoreRule.matches\<close>, on the fields \<open>this.mutatorNames\<close> and \<open>this.line\<close>\<close>
  "matches thisMutatorNames thisLine mutatorName ln =
     (let lineMatches = (thisLine = None \<or> thisLine = Some ln);
          mutatorMatches = (Array_includes thisMutatorNames mutatorName \<or>
             Array_includes thisMutatorNames WILDCARD)
      in lineMatches \<and> mutatorMatches)"

fun Rule_findIgnoreReason :: "Rule \<Rightarrow> string \<Rightarrow> int \<Rightarrow> string option" where
  "Rule_findIgnoreReason rootRule mutatorName ln = None"
| "Rule_findIgnoreReason (IgnoreRule names thisLine reason previous) mutatorName ln =
     (if matches names thisLine mutatorName ln then reason
      else Rule_findIgnoreReason previous mutatorName ln)"

section \<open>The directive grammar\<close>

text \<open>
  \<open>/^\s?Stryker (disable|restore)(?: (next-line))? ([a-zA-Z, ]+)(?::(.+)?)?/\<close>, matched
  the way a backtracking matcher does: every optional part is tried first and given up
  only when what follows fails. The result holds the capture groups 1 to 4 (the full match
  is discarded by the caller).
\<close>

record regexMatch =
  directiveType :: string
  scope :: "string option"
  mutators :: string
  optionalReason :: "string option"

fun stripPrefix :: "string \<Rightarrow> string \<Rightarrow> string option" where
  \<comment> \<open>matching a literal: the rest of the text after it\<close>
  "stripPrefix [] s = Some s"
| "stripPrefix (p # ps) [] = None"
| "stripPrefix (p # ps) (c # cs) = (if p = c then stripPrefix ps cs else None)"

definition matchReason :: "string \<Rightarrow> string option" where
  \<comment> \<open>\<open>(?::(.+)?)?\<close>: group 4 is the longest run without a line terminator, if not empty\<close>
  "matchReason s =
     (case s of
        [] \<Rightarrow> None
      | c # t \<Rightarrow>
          if c = CHR '':'' then
            (let r = takeWhile (\<lambda>x. \<not> isLineTerminator x) t in if r = [] then None else Some r)
          else None)"

definition matchMutators :: "string \<Rightarrow> (string \<times> string option) option" where
  \<comment> \<open>\<open> ([a-zA-Z, ]+)(?::(.+)?)?\<close>: groups 3 and 4\<close>
  "matchMutators s =
     (case stripPrefix '' '' s of
        None \<Rightarrow> None
      | Some s1 \<Rightarrow>
          (let names = takeWhile isNameChar s1
           in if names = [] then None
              else Some (names, matchReason (dropWhile isNameChar s1))))"

definition matchScope :: "string \<Rightarrow> (string option \<times> string \<times> string option) option" where
  \<comment> \<open>\<open>(?: (next-line))? ([a-zA-Z, ]+)(?::(.+)?)?\<close>: groups 2, 3 and 4\<close>
  "matchScope s =
     (let withoutScope = map_option (\<lambda>(m, r). (None, m, r)) (matchMutators s)
      in case stripPrefix '' next-line'' s of
           None \<Rightarrow> withoutScope
         | Some s1 \<Rightarrow>
             (case matchMutators s1 of
                None \<Rightarrow> withoutScope
              | Some (m, r) \<Rightarrow> Some (Some ''next-line'', m, r)))"

definition matchType :: "string \<Rightarrow> regexMatch option" where
  \<comment> \<open>\<open>(disable|restore)\<close> and the rest\<close>
  "matchType s =
     (let alternative = (\<lambda>kind.
            case stripPrefix kind s of
              None \<Rightarrow> None
            | Some s1 \<Rightarrow>
                map_option (\<lambda>(sc, m, r).
                  \<lparr>directiveType = kind, scope = sc, mutators = m, optionalReason = r\<rparr>)
                  (matchScope s1))
      in case alternative ''disable'' of
           Some res \<Rightarrow> Some res
         | None \<Rightarrow> alternative ''restore'')"

definition matchStryker :: "string \<Rightarrow> regexMatch option" where
  "matchStryker s = (case stripPrefix ''Stryker '' s of None \<Rightarrow> None | Some s1 \<Rightarrow> matchType s1)"

definition strykerCommentDirectiveRegex_exec :: "string \<Rightarrow> regexMatch option" where
  \<comment> \<open>\<open>^\s?\<close> and the rest; without the \<open>g\<close> flag the match starts at index 0\<close>
  "strykerCommentDirectiveRegex_exec s =
     (case s of
        [] \<Rightarrow> matchStryker s
      | c # cs \<Rightarrow>
          if isWhiteSpace c then
            (case matchStryker cs of Some res \<Rightarrow> Some res | None \<Rightarrow> matchStryker s)
          else matchStryker s)"

section \<open>Nodes, mutators, mutants and the collector\<close>

text \<open>
  Of a Babel node the bookkeeper reads \<open>leadingComments\<close> (absent, or the comments'
  \<open>value\<close> texts in order) and \<open>loc.start.line\<close> (\<open>loc\<close> may be absent). Of a mutator it
  reads the name. The \<open>Mutant\<close> constructor and the collector live in other files: a mutant
  is the record of its constructor arguments, and the collector is the list of the calls
  of \<open>collect\<close> it has received, oldest first.
\<close>

record node =
  leadingComments :: "string list option"
  loc :: "int option"

record NodeMutator =
  name :: string

record Mutant =
  mutantId :: string
  mutantFileName :: string
  mutantOriginal :: node
  mutantMutatorName :: string
  mutantIgnoreReason :: string
  mutantReplacement :: node

record offset =
  offsetLine :: int
  offsetPosition :: int

record collectCall =
  collectFileName :: string
  collectNode :: node
  collectMutant :: Mutant
  collectOffset :: offset

section \<open>The bookkeeper\<close>

text \<open>
  The state a call works on: the bookkeeper's field \<open>currentIgnoreRule\<close> and the calls the
  collector has received. A call either returns or throws the \<open>TypeError\<close> of
  \<open>node.loc!.start.line\<close> on a node without \<open>loc\<close>; what was done before the throw stays
  done.
\<close>

record world =
  currentIgnoreRule :: Rule
  collected :: "collectCall list"

datatype error = TypeError

datatype outcome = Returned | Thrown error

definition DirectiveBookkeeper :: world where
  \<comment> \<open>a new bookkeeper, and a collector that has received nothing\<close>
  "DirectiveBookkeeper = \<lparr>currentIgnoreRule = rootRule, collected = []\<rparr>"

definition unusedDirective :: "node \<Rightarrow> string \<Rightarrow> string \<Rightarrow> string \<Rightarrow> collectCall" where
  \<comment> \<open>the mutant built for one unknown name and the call of \<open>collector.collect\<close> with it\<close>
  "unusedDirective nd originFileName kind directive =
     \<lparr>collectFileName = originFileName,
      collectNode = nd,
      collectMutant =
        \<lparr>mutantId = directive, mutantFileName = originFileName, mutantOriginal = nd,
         mutantMutatorName = directive,
         mutantIgnoreReason = ''Unused '' @ [CHR 0x27] @ ''Stryker '' @ kind @ [CHR 0x27] @ '' directive'',
         mutantReplacement = nd\<rparr>,
      collectOffset = \<lparr>offsetLine = - 1, offsetPosition = 0\<rparr>\<rparr>"

definition mutatorNamesOf :: "string \<Rightarrow> string list" where
  \<comment> \<open>\<open>const mutatorNames = mutators.split(',').map((mutator) => mutator.trim().toLowerCase())\<close>\<close>
  "mutatorNamesOf groupMutators = map (\<lambda>mutator. toLowerCase (trim mutator)) (split groupMutators)"

definition directivesOf :: "string \<Rightarrow> string list" where
  \<comment> \<open>\<open>const directives = mutators.split(',').map(trim).filter((mutator) => mutator !== WILDCARD)\<close>\<close>
  "directivesOf groupMutators =
     filter (\<lambda>mutator. mutator \<noteq> WILDCARD) (map trim (split groupMutators))"

definition unusedDirectives :: "NodeMutator list \<Rightarrow> string list \<Rightarrow> string list" where
  \<comment> \<open>the directives for which the condition of the \<open>if\<close> in the \<open>for\<close> loop holds\<close>
  "unusedDirectives allMutators directives =
     filter (\<lambda>directive.
       \<not> Array_includes (map (\<lambda>x. toLowerCase (name x)) allMutators) (toLowerCase directive))
       directives"

definition reasonOf :: "string option \<Rightarrow> string" where
  \<comment> \<open>\<open>const reason = (optionalReason ?? DEFAULT_REASON).trim()\<close>\<close>
  "reasonOf groupReason = trim (case groupReason of None \<Rightarrow> DEFAULT_REASON | Some r \<Rightarrow> r)"

definition processDirective ::
  "node \<Rightarrow> NodeMutator list \<Rightarrow> string \<Rightarrow> regexMatch \<Rightarrow> world \<Rightarrow> outcome \<times> world" where
  \<comment> \<open>the body of the \<open>forEach\<close> callback\<close>
  "processDirective nd allMutators originFileName m w =
     (let names = mutatorNamesOf (mutators m);
          w1 = w\<lparr>collected := collected w @
                   map (unusedDirective nd originFileName (directiveType m))
                     (unusedDirectives allMutators (directivesOf (mutators m)))\<rparr>;
          reason = reasonOf (optionalReason m)
      in if directiveType m = ''disable'' then
           (if scope m = Some ''next-line'' then
              (case loc nd of
                 None \<Rightarrow> (Thrown TypeError, w1)
               | Some startLine \<Rightarrow>
                   (Returned, w1\<lparr>currentIgnoreRule :=
                      IgnoreRule names (Some startLine) (Some reason) (currentIgnoreRule w1)\<rparr>))
            else
              (Returned, w1\<lparr>currentIgnoreRule :=
                 IgnoreRule names None (Some reason) (currentIgnoreRule w1)\<rparr>))
         else if directiveType m = ''restore'' then
           (if scope m = Some ''next-line'' then
              (case loc nd of
                 None \<Rightarrow> (Thrown TypeError, w1)
               | Some startLine \<Rightarrow>
                   (Returned, w1\<lparr>currentIgnoreRule :=
                      RestoreRule names (Some startLine) (currentIgnoreRule w1)\<rparr>))
            else
              (Returned, w1\<lparr>currentIgnoreRule := RestoreRule names None (currentIgnoreRule w1)\<rparr>))
         else (Returned, w1))"

fun forEachDirective ::
  "node \<Rightarrow> NodeMutator list \<Rightarrow> string \<Rightarrow> regexMatch list \<Rightarrow> world \<Rightarrow> outcome \<times> world" where
  \<comment> \<open>\<open>forEach\<close>: in order, stopping at the first throw\<close>
  "forEachDirective nd allMutators originFileName [] w = (Returned, w)"
| "forEachDirective nd allMutators originFileName (m # ms) w =
     (case processDirective nd allMutators originFileName m w of
        (Thrown e, w1) \<Rightarrow> (Thrown e, w1)
      | (Returned, w1) \<Rightarrow> forEachDirective nd allMutators originFileName ms w1)"

definition processStrykerDirectives ::
  "node \<Rightarrow> NodeMutator list \<Rightarrow> string \<Rightarrow> world \<Rightarrow> outcome \<times> world" where
  \<comment> \<open>\<open>?.\<close> returns at once without comments; \<open>map\<close> and \<open>filter(notEmpty)\<close> keep the matches\<close>
  "processStrykerDirectives nd allMutators originFileName w =
     (case leadingComments nd of
        None \<Rightarrow> (Returned, w)
      | Some comments \<Rightarrow>
          forEachDirective nd allMutators originFileName
            (List.map_filter strykerCommentDirectiveRegex_exec comments) w)"

definition findIgnoreReason :: "int \<Rightarrow> string \<Rightarrow> world \<Rightarrow> string option \<times> world" where
  \<comment> \<open>\<open>DirectiveBookkeeper.findIgnoreReason\<close>: the value returned and the state it leaves\<close>
  "findIgnoreReason ln mutatorName w =
     (Rule_findIgnoreReason (currentIgnoreRule w) (toLowerCase mutatorName) ln, w)"

section \<open>Rules as objects\<close>

text \<open>
  The same rules as objects in a heap, for what depends on the references between them:
  reference 0 is the \<open>rootRule\<close> object, reference \<open>k + 1\<close> the \<open>k\<close>-th \<open>IgnoreRule\<close>
  allocated. The delegation \<open>this.previousRule.findIgnoreReason(...)\<close> follows a reference,
  so on an arbitrary heap it need not come to an end: the result \<open>None\<close> stands for a call
  that does not return. A reference beyond the heap, which JavaScript cannot hold, is
  given no result either.
\<close>

record ruleObject =
  objMutatorNames :: "string list"
  objLine :: "int option"
  objIgnoreReason :: "string option"
  objPreviousRule :: nat

partial_function (option) heap_findIgnoreReason ::
  "ruleObject list \<Rightarrow> nat \<Rightarrow> string \<Rightarrow> int \<Rightarrow> string option option" where
  "heap_findIgnoreReason heap ref mutatorName ln =
     (if ref = 0 then Some None
      else if length heap < ref then None
      else if matches (objMutatorNames (heap ! (ref - 1))) (objLine (heap ! (ref - 1))) mutatorName ln
           then Some (objIgnoreReason (heap ! (ref - 1)))
           else heap_findIgnoreReason heap (objPreviousRule (heap ! (ref - 1))) mutatorName ln)"

declare heap_findIgnoreReason.simps [code]

definition new_IgnoreRule ::
  "string list \<times> int option \<times> string option \<Rightarrow> ruleObject list \<times> nat \<Rightarrow> ruleObject list \<times> nat" where
  \<comment> \<open>\<open>this.currentIgnoreRule = new IgnoreRule(names, line, reason, this.currentIgnoreRule)\<close>\<close>
  "new_IgnoreRule args st =
     (case args of (names, thisLine, reason) \<Rightarrow>
        (fst st @ [\<lparr>objMutatorNames = names, objLine = thisLine, objIgnoreReason = reason,
                    objPreviousRule = snd st\<rparr>],
         Suc (length (fst st))))"

definition pushes :: "(string list \<times> int option \<times> string option) list \<Rightarrow> ruleObject list \<times> nat" where
  \<comment> \<open>the heap and \<open>currentIgnoreRule\<close> after a sequence of pushes on a new bookkeeper\<close>
  "pushes args = fold new_IgnoreRule args ([], 0)"

definition chain :: "(string list \<times> int option \<times> string option) list \<Rightarrow> Rule" where
  \<comment> \<open>the same pushes on the datatype of rules\<close>
  "chain args = fold (\<lambda>(names, thisLine, reason) previous. IgnoreRule names thisLine reason previous) args rootRule"

section \<open>Facts about the callback and the entry point\<close>

lemma processDirective_collected:
  "collected (snd (processDirective nd allMutators f m w)) =
     collected w @ map (unusedDirective nd f (directiveType m))
       (unusedDirectives allMutators (directivesOf (mutators m)))"
  by (simp add: processDirective_def Let_def split: option.splits)

lemma processDirective_disable:
  assumes "directiveType m = ''disable''" and "scope m = Some ''next-line'' \<longrightarrow> loc nd \<noteq> None"
  shows "processDirective nd allMutators f m w =
     (Returned,
      \<lparr>currentIgnoreRule =
         IgnoreRule (mutatorNamesOf (mutators m))
           (if scope m = Some ''next-line'' then loc nd else None)
           (Some (reasonOf (optionalReason m))) (currentIgnoreRule w),
       collected = collected w @ map (unusedDirective nd f ''disable'')
         (unusedDirectives allMutators (directivesOf (mutators m)))\<rparr>)"
  using assms by (auto simp add: processDirective_def Let_def split: option.splits)

lemma processDirective_restore:
  assumes "directiveType m = ''restore''" and "scope m = Some ''next-line'' \<longrightarrow> loc nd \<noteq> None"
  shows "processDirective nd allMutators f m w =
     (Returned,
      \<lparr>currentIgnoreRule =
         IgnoreRule (mutatorNamesOf (mutators m))
           (if scope m = Some ''next-line'' then loc nd else None)
           None (currentIgnoreRule w),
       collected = collected w @ map (unusedDirective nd f ''restore'')
         (unusedDirectives allMutators (directivesOf (mutators m)))\<rparr>)"
  using assms by (auto simp add: processDirective_def RestoreRule_def Let_def split: option.splits)

lemma processStrykerDirectives_single:
  assumes "leadingComments nd = Some [c]" and "strykerCommentDirectiveRegex_exec c = Some m"
  shows "processStrykerDirectives nd allMutators f w = processDirective nd allMutators f m w"
  using assms
  by (simp add: processStrykerDirectives_def List.map_filter_simps split: prod.splits outcome.splits)

lemma processStrykerDirectives_pair:
  assumes "leadingComments nd = Some [c1, c2]"
    and "strykerCommentDirectiveRegex_exec c1 = Some m1"
    and "strykerCommentDirectiveRegex_exec c2 = Some m2"
    and "fst (processDirective nd allMutators f m1 w) = Returned"
  shows "processStrykerDirectives nd allMutators f w =
     processDirective nd allMutators f m2 (snd (processDirective nd allMutators f m1 w))"
proof -
  obtain w1 where 1: "processDirective nd allMutators f m1 w = (Returned, w1)"
    using assms(4) by (cases "processDirective nd allMutators f m1 w") simp
  obtain out w2 where 2: "processDirective nd allMutators f m2 w1 = (out, w2)"
    by (cases "processDirective nd allMutators f m2 w1") simp
  show ?thesis
    using assms(1-3) 1 2
    by (cases out) (simp_all add: processStrykerDirectives_def List.map_filter_simps)
qed

lemma toLowerCase_literals:
  "toLowerCase ''StringLiteral'' = ''stringliteral''"
  "toLowerCase ''BooleanLiteral'' = ''booleanliteral''"
  by code_simp+

lemma mutatorNamesOf_literals:
  "mutatorNamesOf ''all'' = [''all'']"
  "mutatorNamesOf ''StringLiteral'' = [''stringliteral'']"
  by code_simp+

lemma reasonOf_None: "reasonOf None = ''Ignored using a comment''"
  by code_simp

lemma forEachDirective_collected:
  "\<exists>new. collected (snd (forEachDirective nd allMutators f ms w)) = collected w @ new \<and>
     (\<forall>call \<in> set new.
        collectOffset call = \<lparr>offsetLine = - 1, offsetPosition = 0\<rparr> \<and> collectNode call = nd)"
proof (induction ms arbitrary: w)
  case Nil
  then show ?case by simp
next
  case (Cons m ms)
  obtain out w1 where step: "processDirective nd allMutators f m w = (out, w1)"
    by (cases "processDirective nd allMutators f m w") simp
  have w1: "collected w1 = collected w @ map (unusedDirective nd f (directiveType m))
       (unusedDirectives allMutators (directivesOf (mutators m)))"
    using processDirective_collected [of nd allMutators f m w] step by simp
  show ?case
  proof (cases out)
    case Returned
    from Cons.IH [of w1] obtain new where
      new: "collected (snd (forEachDirective nd allMutators f ms w1)) = collected w1 @ new"
        "\<forall>call \<in> set new.
           collectOffset call = \<lparr>offsetLine = - 1, offsetPosition = 0\<rparr> \<and> collectNode call = nd"
      by blast
    show ?thesis
      apply (rule exI [of _ "map (unusedDirective nd f (directiveType m))
         (unusedDirectives allMutators (directivesOf (mutators m))) @ new"])
      using step Returned new w1 by (auto simp add: unusedDirective_def)
  next
    case (Thrown e)
    show ?thesis
      apply (rule exI [of _ "map (unusedDirective nd f (directiveType m))
         (unusedDirectives allMutators (directivesOf (mutators m)))"])
      using step Thrown w1 by (auto simp add: unusedDirective_def)
  qed
qed

text \<open>
  A directive whose rule does not match a query leaves the answer to the older chain,
  whether it is pushed or the call throws; a disable directive whose rule matches answers
  with its reason. Both facts are lifted to the callback loop, to one node and to a walk
  over nodes.
\<close>

lemma processDirective_returns:
  assumes "scope m = Some ''next-line'' \<longrightarrow> loc nd \<noteq> None"
  shows "fst (processDirective nd allMutators f m w) = Returned"
  using assms by (auto simp add: processDirective_def Let_def split: option.splits)

lemma processDirective_skip:
  assumes "\<not> matches (mutatorNamesOf (mutators m))
               (if scope m = Some ''next-line'' then loc nd else None) (toLowerCase nm) ln"
  shows "fst (findIgnoreReason ln nm (snd (processDirective nd allMutators f m w))) =
         fst (findIgnoreReason ln nm w)"
  using assms
  by (auto simp add: processDirective_def RestoreRule_def Let_def findIgnoreReason_def
      split: option.splits if_splits)

lemma processDirective_hit:
  assumes "directiveType m = ''disable''"
    and "scope m = Some ''next-line'' \<longrightarrow> loc nd \<noteq> None"
    and "matches (mutatorNamesOf (mutators m))
           (if scope m = Some ''next-line'' then loc nd else None) (toLowerCase nm) ln"
  shows "fst (findIgnoreReason ln nm (snd (processDirective nd allMutators f m w))) =
         Some (reasonOf (optionalReason m))"
  using assms(3) by (simp add: processDirective_disable [OF assms(1,2)] findIgnoreReason_def)

lemma forEachDirective_skip:
  assumes "\<forall>m \<in> set ms. \<not> matches (mutatorNamesOf (mutators m))
               (if scope m = Some ''next-line'' then loc nd else None) (toLowerCase nm) ln"
  shows "fst (findIgnoreReason ln nm (snd (forEachDirective nd allMutators f ms w))) =
         fst (findIgnoreReason ln nm w)"
  using assms
proof (induction ms arbitrary: w)
  case Nil
  then show ?case by simp
next
  case (Cons m ms)
  obtain out w1 where step: "processDirective nd allMutators f m w = (out, w1)"
    by (cases "processDirective nd allMutators f m w") simp
  have skip: "fst (findIgnoreReason ln nm w1) = fst (findIgnoreReason ln nm w)"
    using processDirective_skip [of m nd nm ln allMutators f w] Cons.prems step by simp
  show ?case
  proof (cases out)
    case Returned
    then show ?thesis using step skip Cons.IH [of w1] Cons.prems by simp
  next
    case (Thrown e)
    then show ?thesis using step skip by simp
  qed
qed

lemma forEachDirective_returns:
  assumes "\<forall>m \<in> set ms. scope m = Some ''next-line'' \<longrightarrow> loc nd \<noteq> None"
  shows "fst (forEachDirective nd allMutators f ms w) = Returned"
  using assms
proof (induction ms arbitrary: w)
  case Nil
  then show ?case by simp
next
  case (Cons m ms)
  obtain out w1 where step: "processDirective nd allMutators f m w = (out, w1)"
    by (cases "processDirective nd allMutators f m w") simp
  have "out = Returned"
    using processDirective_returns [of m nd allMutators f w] Cons.prems step by simp
  then show ?case using step Cons.IH [of w1] Cons.prems by simp
qed

lemma forEachDirective_append:
  assumes "fst (forEachDirective nd allMutators f ms1 w) = Returned"
  shows "forEachDirective nd allMutators f (ms1 @ ms2) w =
         forEachDirective nd allMutators f ms2 (snd (forEachDirective nd allMutators f ms1 w))"
  using assms
proof (induction ms1 arbitrary: w)
  case Nil
  then show ?case by simp
next
  case (Cons m ms1)
  obtain out w1 where step: "processDirective nd allMutators f m w = (out, w1)"
    by (cases "processDirective nd allMutators f m w") simp
  show ?case
  proof (cases out)
    case Returned
    then show ?thesis using step Cons.IH [of w1] Cons.prems by simp
  next
    case (Thrown e)
    then show ?thesis using step Cons.prems by simp
  qed
qed

lemma map_filter_exec_append:
  "List.map_filter g (xs @ ys) = List.map_filter g xs @ List.map_filter g ys"
  by (simp add: List.map_filter_def)

lemma in_map_filterD:
  assumes "m \<in> set (List.map_filter g xs)"
  shows "\<exists>x \<in> set xs. g x = Some m"
  using assms by (induction xs) (auto simp add: List.map_filter_simps split: option.splits)

lemma processStrykerDirectives_skip:
  assumes "\<forall>cs. leadingComments nd = Some cs \<longrightarrow>
             (\<forall>c \<in> set cs. \<forall>m. strykerCommentDirectiveRegex_exec c = Some m \<longrightarrow>
                \<not> matches (mutatorNamesOf (mutators m))
                    (if scope m = Some ''next-line'' then loc nd else None) (toLowerCase nm) ln)"
  shows "fst (findIgnoreReason ln nm (snd (processStrykerDirectives nd allMutators f w))) =
         fst (findIgnoreReason ln nm w)"
proof (cases "leadingComments nd")
  case None
  then show ?thesis by (simp add: processStrykerDirectives_def)
next
  case (Some cs)
  have "\<forall>m \<in> set (List.map_filter strykerCommentDirectiveRegex_exec cs).
      \<not> matches (mutatorNamesOf (mutators m))
          (if scope m = Some ''next-line'' then loc nd else None) (toLowerCase nm) ln"
  proof
    fix m
    assume "m \<in> set (List.map_filter strykerCommentDirectiveRegex_exec cs)"
    then obtain c where "c \<in> set cs" "strykerCommentDirectiveRegex_exec c = Some m"
      using in_map_filterD by fast
    then show "\<not> matches (mutatorNamesOf (mutators m))
          (if scope m = Some ''next-line'' then loc nd else None) (toLowerCase nm) ln"
      using assms Some by blast
  qed
  from forEachDirective_skip [OF this] show ?thesis
    using Some by (simp add: processStrykerDirectives_def)
qed

lemma walk_skip:
  assumes "\<forall>nd \<in> set nodes. \<forall>cs. leadingComments nd = Some cs \<longrightarrow>
             (\<forall>c \<in> set cs. \<forall>m. strykerCommentDirectiveRegex_exec c = Some m \<longrightarrow>
                \<not> matches (mutatorNamesOf (mutators m))
                    (if scope m = Some ''next-line'' then loc nd else None) (toLowerCase nm) ln)"
  shows "fst (findIgnoreReason ln nm
            (fold (\<lambda>nd v. snd (processStrykerDirectives nd allMutators f v)) nodes w)) =
         fst (findIgnoreReason ln nm w)"
  using assms
proof (induction nodes arbitrary: w)
  case Nil
  then show ?case by simp
next
  case (Cons nd nodes)
  have "fst (findIgnoreReason ln nm (snd (processStrykerDirectives nd allMutators f w))) =
        fst (findIgnoreReason ln nm w)"
    by (rule processStrykerDirectives_skip) (use Cons.prems in simp)
  then show ?case
    using Cons.IH [of "snd (processStrykerDirectives nd allMutators f w)"] Cons.prems by simp
qed

lemma processStrykerDirectives_last_match:
  assumes n: "leadingComments nd = Some (cs1 @ [c] @ cs2)"
    and c: "strykerCommentDirectiveRegex_exec c = Some m"
    and d: "directiveType m = ''disable''"
    and hit: "matches (mutatorNamesOf (mutators m))
                (if scope m = Some ''next-line'' then loc nd else None) (toLowerCase nm) ln"
    and newer: "\<forall>c' \<in> set cs2. \<forall>m'. strykerCommentDirectiveRegex_exec c' = Some m' \<longrightarrow>
                  \<not> matches (mutatorNamesOf (mutators m'))
                      (if scope m' = Some ''next-line'' then loc nd else None) (toLowerCase nm) ln"
    and located: "\<forall>c' \<in> set (cs1 @ [c]). \<forall>m'. strykerCommentDirectiveRegex_exec c' = Some m' \<longrightarrow>
                  scope m' = Some ''next-line'' \<longrightarrow> loc nd \<noteq> None"
  shows "fst (findIgnoreReason ln nm (snd (processStrykerDirectives nd allMutators f w))) =
         Some (reasonOf (optionalReason m))"
proof -
  let ?ms1 = "List.map_filter strykerCommentDirectiveRegex_exec cs1"
  let ?ms2 = "List.map_filter strykerCommentDirectiveRegex_exec cs2"
  have ms: "List.map_filter strykerCommentDirectiveRegex_exec (cs1 @ [c] @ cs2) = ?ms1 @ [m] @ ?ms2"
    using c by (simp add: map_filter_exec_append List.map_filter_simps)
  have "\<forall>m' \<in> set ?ms1. scope m' = Some ''next-line'' \<longrightarrow> loc nd \<noteq> None"
  proof
    fix m'
    assume "m' \<in> set ?ms1"
    then obtain c' where "c' \<in> set cs1" "strykerCommentDirectiveRegex_exec c' = Some m'"
      using in_map_filterD by fast
    then show "scope m' = Some ''next-line'' \<longrightarrow> loc nd \<noteq> None"
      using located by auto
  qed
  then have r1: "fst (forEachDirective nd allMutators f ?ms1 w) = Returned"
    by (rule forEachDirective_returns)
  let ?w1 = "snd (forEachDirective nd allMutators f ?ms1 w)"
  have l: "scope m = Some ''next-line'' \<longrightarrow> loc nd \<noteq> None"
    using located c by simp
  have r2: "fst (processDirective nd allMutators f m ?w1) = Returned"
    by (rule processDirective_returns [OF l])
  let ?w2 = "snd (processDirective nd allMutators f m ?w1)"
  have step2: "forEachDirective nd allMutators f ([m] @ ?ms2) ?w1 =
      forEachDirective nd allMutators f ?ms2 ?w2"
    using r2 by (cases "processDirective nd allMutators f m ?w1") simp
  have all: "forEachDirective nd allMutators f (?ms1 @ [m] @ ?ms2) w =
      forEachDirective nd allMutators f ?ms2 ?w2"
    using forEachDirective_append [OF r1, of "[m] @ ?ms2"] step2 by simp
  have "\<forall>m' \<in> set ?ms2. \<not> matches (mutatorNamesOf (mutators m'))
      (if scope m' = Some ''next-line'' then loc nd else None) (toLowerCase nm) ln"
  proof
    fix m'
    assume "m' \<in> set ?ms2"
    then obtain c' where "c' \<in> set cs2" "strykerCommentDirectiveRegex_exec c' = Some m'"
      using in_map_filterD by fast
    then show "\<not> matches (mutatorNamesOf (mutators m'))
      (if scope m' = Some ''next-line'' then loc nd else None) (toLowerCase nm) ln"
      using newer by blast
  qed
  from forEachDirective_skip [OF this]
  have "fst (findIgnoreReason ln nm (snd (forEachDirective nd allMutators f ?ms2 ?w2))) =
      fst (findIgnoreReason ln nm ?w2)" .
  also have "\<dots> = Some (reasonOf (optionalReason m))"
    by (rule processDirective_hit [OF d l hit])
  finally show ?thesis
    using n ms all by (simp add: processStrykerDirectives_def)
qed

lemma toLowerCase_all: "toLowerCase ''all'' = ''all''"
  by code_simp

section \<open>Facts about the grammar\<close>

lemma colon_not_name: "\<not> isNameChar CHR '':''"
  by (simp add: isNameChar_def)

lemma matchMutators_names:
  assumes "names \<noteq> []" and "\<forall>x \<in> set names. isNameChar x"
  shows "matchMutators (CHR '' '' # names @ CHR '':'' # t) = Some (names, matchReason (CHR '':'' # t))"
  using assms by (simp add: matchMutators_def takeWhile_append2 dropWhile_append2 colon_not_name)

text \<open>
  A run of name characters followed by a colon never starts with \<open>next-line\<close>: the dash
  is not a name character, and the colon comes too early in a shorter run.
\<close>

lemma no_scope:
  assumes "\<forall>x \<in> set names. isNameChar x"
  shows "stripPrefix ''next-line'' (names @ CHR '':'' # t) = None"
proof -
  have dash: "\<not> isNameChar CHR ''-''" by (simp add: isNameChar_def)
  show ?thesis
  proof (cases names)
    case Nil then show ?thesis by simp
  next
    case (Cons a as) note 1 = this
    show ?thesis
    proof (cases as)
      case Nil then show ?thesis using 1 by simp
    next
      case (Cons b bs) note 2 = this
      show ?thesis
      proof (cases bs)
        case Nil then show ?thesis using 1 2 by simp
      next
        case (Cons c cs) note 3 = this
        show ?thesis
        proof (cases cs)
          case Nil then show ?thesis using 1 2 3 by simp
        next
          case (Cons d ds) note 4 = this
          show ?thesis
          proof (cases ds)
            case Nil then show ?thesis using 1 2 3 4 by simp
          next
            case (Cons e es)
            then have "isNameChar e" using assms 1 2 3 4 by simp
            then have "e \<noteq> CHR ''-''" using dash by auto
            then show ?thesis using 1 2 3 4 Cons by simp
          qed
        qed
      qed
    qed
  qed
qed

lemma matchScope_names:
  assumes "names \<noteq> []" and "\<forall>x \<in> set names. isNameChar x"
  shows "matchScope (CHR '' '' # names @ CHR '':'' # t) = Some (None, names, matchReason (CHR '':'' # t))"
    and "matchScope ('' next-line '' @ names @ CHR '':'' # t) =
           Some (Some ''next-line'', names, matchReason (CHR '':'' # t))"
  by (simp_all add: matchScope_def no_scope [OF assms(2)] matchMutators_names [OF assms])

lemma matchReason_text:
  assumes "t \<noteq> []" and "\<not> isLineTerminator (hd t)"
  shows "matchReason (CHR '':'' # t) = Some (takeWhile (\<lambda>x. \<not> isLineTerminator x) t)"
  using assms by (cases t) (simp_all add: matchReason_def)

lemma trim_whitespace:
  assumes "\<forall>x \<in> set s. isWhiteSpace x"
  shows "trim s = []"
proof -
  have d: "dropWhile isWhiteSpace s = []"
    using assms by (simp add: dropWhile_eq_Nil_conv)
  show ?thesis unfolding trim_def d by simp
qed

lemma matchStryker_disable:
  assumes sc: "sc = [] \<or> sc = '' next-line''"
    and names: "names \<noteq> []" "\<forall>x \<in> set names. isNameChar x"
  shows "matchStryker (''Stryker disable'' @ sc @ '' '' @ names @ '':'' @ t) =
     Some \<lparr>directiveType = ''disable'', scope = (if sc = [] then None else Some ''next-line''),
           mutators = names, optionalReason = matchReason (CHR '':'' # t)\<rparr>"
  using sc matchScope_names [OF names, of t]
  by (auto simp add: matchStryker_def matchType_def)

lemma exec_disable:
  assumes lead: "lead = [] \<or> (\<exists>x. lead = [x] \<and> isWhiteSpace x)"
    and sc: "sc = [] \<or> sc = '' next-line''"
    and names: "names \<noteq> []" "\<forall>x \<in> set names. isNameChar x"
  shows "strykerCommentDirectiveRegex_exec (lead @ ''Stryker disable'' @ sc @ '' '' @ names @ '':'' @ t) =
     Some \<lparr>directiveType = ''disable'', scope = (if sc = [] then None else Some ''next-line''),
           mutators = names, optionalReason = matchReason (CHR '':'' # t)\<rparr>"
proof -
  note stryker = matchStryker_disable [OF sc names, of t]
  have S: "\<not> isWhiteSpace CHR ''S''" by (simp add: isWhiteSpace_def)
  from lead show ?thesis
  proof
    assume "lead = []"
    then show ?thesis using stryker S by (simp add: strykerCommentDirectiveRegex_exec_def)
  next
    assume "\<exists>x. lead = [x] \<and> isWhiteSpace x"
    then obtain x where "lead = [x]" "isWhiteSpace x" by blast
    then show ?thesis using stryker by (simp add: strykerCommentDirectiveRegex_exec_def)
  qed
qed

section \<open>Facts about rules as objects\<close>

lemma heap_findIgnoreReason_root: "heap_findIgnoreReason heap 0 nm ln = Some None"
  by (subst heap_findIgnoreReason.simps) simp

text \<open>
  The delegation is partial on heaps in general: on a rule that is its own previous rule
  and matches nothing, the query does not return.
\<close>

lemma no_return_on_cycle:
  assumes "heap_findIgnoreReason heap ref nm ln = Some y"
  shows "\<not> (heap = [\<lparr>objMutatorNames = [], objLine = None, objIgnoreReason = None, objPreviousRule = 1\<rparr>] \<and> ref = 1)"
proof (rule heap_findIgnoreReason.raw_induct
    [where P = "\<lambda>heap ref nm ln y. \<not> (heap = [\<lparr>objMutatorNames = [], objLine = None,
       objIgnoreReason = None, objPreviousRule = 1\<rparr>] \<and> ref = 1)", OF _ assms])
  fix g :: "ruleObject list \<Rightarrow> nat \<Rightarrow> string \<Rightarrow> int \<Rightarrow> string option option"
    and heap ref nm ln y
  assume IH: "\<And>heap ref nm ln y. g heap ref nm ln = Some y \<Longrightarrow>
      \<not> (heap = [\<lparr>objMutatorNames = [], objLine = None, objIgnoreReason = None, objPreviousRule = 1\<rparr>] \<and> ref = 1)"
    and step: "(if ref = 0 then Some None
      else if length heap < ref then None
           else if matches (objMutatorNames (heap ! (ref - 1))) (objLine (heap ! (ref - 1))) nm ln
                then Some (objIgnoreReason (heap ! (ref - 1)))
                else g heap (objPreviousRule (heap ! (ref - 1))) nm ln) = Some y"
  show "\<not> (heap = [\<lparr>objMutatorNames = [], objLine = None, objIgnoreReason = None, objPreviousRule = 1\<rparr>] \<and> ref = 1)"
  proof
    assume eq: "heap = [\<lparr>objMutatorNames = [], objLine = None, objIgnoreReason = None, objPreviousRule = 1\<rparr>] \<and> ref = 1"
    with step have "g heap ref nm ln = Some y"
      by (simp add: matches_def Array_includes_def)
    from IH [OF this] eq show False by simp
  qed
qed

lemma heap_findIgnoreReason_cycle:
  "heap_findIgnoreReason
     [\<lparr>objMutatorNames = [], objLine = None, objIgnoreReason = None, objPreviousRule = 1\<rparr>] 1 nm ln = None"
proof (rule ccontr)
  assume "heap_findIgnoreReason
     [\<lparr>objMutatorNames = [], objLine = None, objIgnoreReason = None, objPreviousRule = 1\<rparr>] 1 nm ln \<noteq> None"
  then obtain y where "heap_findIgnoreReason
     [\<lparr>objMutatorNames = [], objLine = None, objIgnoreReason = None, objPreviousRule = 1\<rparr>] 1 nm ln = Some y"
    by blast
  from no_return_on_cycle [OF this] show False by simp
qed

text \<open>
  Allocating further objects does not change the answer of a rule whose links all point
  to older objects.
\<close>

lemma heap_findIgnoreReason_append:
  assumes "\<forall>k < length heap. objPreviousRule (heap ! k) \<le> k" and "ref \<le> length heap"
  shows "heap_findIgnoreReason (heap @ extra) ref nm ln = heap_findIgnoreReason heap ref nm ln"
  using assms(2)
proof (induction ref rule: less_induct)
  case (less ref)
  show ?case
  proof (cases "ref = 0")
    case True
    then show ?thesis by (simp add: heap_findIgnoreReason_root)
  next
    case False
    then have k: "ref - 1 < length heap" using less.prems by simp
    then have "objPreviousRule (heap ! (ref - 1)) \<le> ref - 1"
      using assms(1) by blast
    then have prev: "objPreviousRule (heap ! (ref - 1)) < ref"
      using False by simp
    have prev': "objPreviousRule (heap ! (ref - 1)) \<le> length heap"
      using prev less.prems by simp
    show ?thesis
      apply (subst heap_findIgnoreReason.simps)
      apply (subst (2) heap_findIgnoreReason.simps)
      using False k less.prems less.IH [OF prev prev'] by (simp add: nth_append)
  qed
qed

lemma pushes_snoc: "pushes (args @ [a]) = new_IgnoreRule a (pushes args)"
  by (simp add: pushes_def)

lemma chain_snoc:
  "chain (args @ [(names, thisLine, reason)]) = IgnoreRule names thisLine reason (chain args)"
  by (simp add: chain_def)

lemma pushes_linear:
  "snd (pushes args) = length (fst (pushes args)) \<and>
   (\<forall>k < length (fst (pushes args)). objPreviousRule (fst (pushes args) ! k) = k)"
proof (induction args rule: rev_induct)
  case Nil
  then show ?case by (simp add: pushes_def)
next
  case (snoc a args)
  then show ?case
    by (cases a) (auto simp add: pushes_snoc new_IgnoreRule_def nth_append less_Suc_eq)
qed

lemma pushes_refines:
  "heap_findIgnoreReason (fst (pushes args)) (snd (pushes args)) nm ln =
     Some (Rule_findIgnoreReason (chain args) nm ln)"
proof (induction args rule: rev_induct)
  case Nil
  then show ?case by (simp add: pushes_def chain_def heap_findIgnoreReason_root)
next
  case (snoc a args)
  obtain names thisLine reason where a: "a = (names, thisLine, reason)" by (cases a) auto
  let ?h = "fst (pushes args)"
  have lin: "\<forall>k < length ?h. objPreviousRule (?h ! k) \<le> k" "snd (pushes args) = length ?h"
    using pushes_linear [of args] by auto
  have old: "heap_findIgnoreReason (?h @ extra) (snd (pushes args)) nm ln =
      Some (Rule_findIgnoreReason (chain args) nm ln)" for extra
    using heap_findIgnoreReason_append [OF lin(1), of "snd (pushes args)" extra nm ln] lin(2) snoc.IH
    by simp
  show ?case
    apply (subst heap_findIgnoreReason.simps)
    using old by (simp add: a pushes_snoc chain_snoc new_IgnoreRule_def lin(2))
qed

text \<open>
  Every state that calls of \<open>processStrykerDirectives\<close> reach from a chain of pushes holds a
  chain of pushes again: the rule objects of a bookkeeper are those of \<open>pushes\<close>.
\<close>

lemma processDirective_chain:
  assumes "currentIgnoreRule w = chain args"
  shows "\<exists>pushed. currentIgnoreRule (snd (processDirective nd allMutators f m w)) = chain (args @ pushed)"
proof -
  have keep: "\<exists>pushed. chain args = chain (args @ pushed)"
    by (rule exI [of _ "[]"]) simp
  have push: "\<exists>pushed. IgnoreRule names thisLine reason (chain args) = chain (args @ pushed)"
    for names thisLine reason
    by (rule exI [of _ "[(names, thisLine, reason)]"]) (simp add: chain_snoc)
  show ?thesis
    using assms keep push
    by (simp add: processDirective_def RestoreRule_def Let_def split: option.splits)
qed

lemma forEachDirective_chain:
  assumes "currentIgnoreRule w = chain args"
  shows "\<exists>pushed. currentIgnoreRule (snd (forEachDirective nd allMutators f ms w)) = chain (args @ pushed)"
  using assms
proof (induction ms arbitrary: w args)
  case Nil
  show ?case using Nil by (intro exI [of _ "[]"]) simp
next
  case (Cons m ms)
  obtain out w1 where step: "processDirective nd allMutators f m w = (out, w1)"
    by (cases "processDirective nd allMutators f m w") simp
  from processDirective_chain [OF Cons.prems, of nd allMutators f m] step
  obtain p1 where p1: "currentIgnoreRule w1 = chain (args @ p1)" by auto
  show ?case
  proof (cases out)
    case Returned
    from Cons.IH [OF p1] obtain p2 where
      "currentIgnoreRule (snd (forEachDirective nd allMutators f ms w1)) = chain ((args @ p1) @ p2)"
      by blast
    then show ?thesis using step Returned by (intro exI [of _ "p1 @ p2"]) simp
  next
    case (Thrown e)
    then show ?thesis using step p1 by (intro exI [of _ p1]) simp
  qed
qed

lemma processStrykerDirectives_chain:
  assumes "currentIgnoreRule w = chain args"
  shows "\<exists>pushed. currentIgnoreRule (snd (processStrykerDirectives nd allMutators f w)) = chain (args @ pushed)"
proof (cases "leadingComments nd")
  case None
  then show ?thesis using assms by (intro exI [of _ "[]"]) (simp add: processStrykerDirectives_def)
next
  case (Some comments)
  then show ?thesis
    using forEachDirective_chain [OF assms] by (simp add: processStrykerDirectives_def)
qed

section \<open>Override and restore\<close>

text \<open>
  C1. After a file-wide \<open>disable all\<close> directive and then a file-wide
  \<open>restore StringLiteral\<close> directive have been processed, in this order, from any state
  of the bookkeeper, a query for \<open>StringLiteral\<close> at any line returns no reason, and a
  query for \<open>BooleanLiteral\<close> at any line returns the reason of the disable rule. The two
  comments may lead two nodes processed one after the other (state \<open>wA\<close>) or both lead
  the same node (state \<open>wB\<close>).
\<close>

theorem restore_shadows_disable_all:
  assumes c1: "strykerCommentDirectiveRegex_exec c1 =
      Some \<lparr>directiveType = ''disable'', scope = None, mutators = ''all'', optionalReason = r1\<rparr>"
    and c2: "strykerCommentDirectiveRegex_exec c2 =
      Some \<lparr>directiveType = ''restore'', scope = None, mutators = ''StringLiteral'', optionalReason = r2\<rparr>"
    and wA: "wA = snd (processStrykerDirectives \<lparr>leadingComments = Some [c2], loc = l2\<rparr> allMutators f
               (snd (processStrykerDirectives \<lparr>leadingComments = Some [c1], loc = l1\<rparr> allMutators f w0)))"
    and wB: "wB = snd (processStrykerDirectives \<lparr>leadingComments = Some [c1, c2], loc = l\<rparr> allMutators f w0)"
  shows "fst (findIgnoreReason ln ''StringLiteral'' wA) = None \<and>
         fst (findIgnoreReason ln ''BooleanLiteral'' wA) = Some (reasonOf r1) \<and>
         fst (findIgnoreReason ln ''StringLiteral'' wB) = None \<and>
         fst (findIgnoreReason ln ''BooleanLiteral'' wB) = Some (reasonOf r1)"
proof -
  let ?m1 = "\<lparr>directiveType = ''disable'', scope = None, mutators = ''all'', optionalReason = r1\<rparr>"
  let ?m2 = "\<lparr>directiveType = ''restore'', scope = None, mutators = ''StringLiteral'', optionalReason = r2\<rparr>"
  have A: "wA = snd (processDirective \<lparr>leadingComments = Some [c2], loc = l2\<rparr> allMutators f ?m2
      (snd (processDirective \<lparr>leadingComments = Some [c1], loc = l1\<rparr> allMutators f ?m1 w0)))"
    unfolding wA
    by (simp add: processStrykerDirectives_single [OF _ c1] processStrykerDirectives_single [OF _ c2])
  have "fst (processDirective \<lparr>leadingComments = Some [c1, c2], loc = l\<rparr> allMutators f ?m1 w0) = Returned"
    by (simp add: processDirective_disable)
  then have B: "wB = snd (processDirective \<lparr>leadingComments = Some [c1, c2], loc = l\<rparr> allMutators f ?m2
      (snd (processDirective \<lparr>leadingComments = Some [c1, c2], loc = l\<rparr> allMutators f ?m1 w0)))"
    unfolding wB by (simp add: processStrykerDirectives_pair [OF _ c1 c2])
  show ?thesis
    unfolding A B
    by (simp add: processDirective_disable processDirective_restore findIgnoreReason_def
        mutatorNamesOf_literals toLowerCase_literals matches_def Array_includes_def WILDCARD_def)
qed

theorem restore_shadows_disable_all_witness:
  "strykerCommentDirectiveRegex_exec '' Stryker disable all'' =
     Some \<lparr>directiveType = ''disable'', scope = None, mutators = ''all'', optionalReason = None\<rparr> \<and>
   strykerCommentDirectiveRegex_exec '' Stryker restore StringLiteral'' =
     Some \<lparr>directiveType = ''restore'', scope = None, mutators = ''StringLiteral'', optionalReason = None\<rparr> \<and>
   fst (findIgnoreReason 7 ''StringLiteral''
     (snd (processStrykerDirectives
        \<lparr>leadingComments = Some ['' Stryker restore StringLiteral''], loc = Some 4\<rparr> [] ''a.js''
        (snd (processStrykerDirectives
           \<lparr>leadingComments = Some ['' Stryker disable all''], loc = Some 2\<rparr> [] ''a.js''
           DirectiveBookkeeper))))) = None \<and>
   fst (findIgnoreReason 7 ''BooleanLiteral''
     (snd (processStrykerDirectives
        \<lparr>leadingComments = Some ['' Stryker disable all'', '' Stryker restore StringLiteral''],
         loc = Some 2\<rparr> [] ''a.js'' DirectiveBookkeeper))) = Some ''Ignored using a comment''"
proof -
  have c1: "strykerCommentDirectiveRegex_exec '' Stryker disable all'' =
     Some \<lparr>directiveType = ''disable'', scope = None, mutators = ''all'', optionalReason = None\<rparr>"
    by code_simp
  have c2: "strykerCommentDirectiveRegex_exec '' Stryker restore StringLiteral'' =
     Some \<lparr>directiveType = ''restore'', scope = None, mutators = ''StringLiteral'', optionalReason = None\<rparr>"
    by code_simp
  show ?thesis
    using c1 c2
      restore_shadows_disable_all [OF c1 c2 refl refl, of 7 "Some 4" "[]" "''a.js''" "Some 2"
        DirectiveBookkeeper "Some 2"]
    by (simp add: reasonOf_None)
qed

section \<open>Recency\<close>

text \<open>
  C2. Nodes are visited in order from any state of the bookkeeper, whatever older rules
  it holds. A disable directive \<open>c2\<close> among the leading comments of the node \<open>n2\<close> pushes
  a rule that matches the queried line and lower-cased mutator name. An earlier disable
  directive \<open>c1\<close>, on a node visited before or among the earlier comments of the same
  node, pushes a rule that matches the query too, with a different reason. Directives of
  any kind and scope may lie before and between them; every directive after \<open>c2\<close>, on
  the same node or on the nodes visited later, pushes a rule that does not match the
  query. Every node with a next-line directive has a location. Then the query returns
  the reason of \<open>c2\<close>, the matching rule pushed last, and not the reason of \<open>c1\<close>: the
  resolution passes over the newer rules that do not match and stops at the first match,
  however many older rules match.
\<close>

theorem newest_matching_disable_wins:
  assumes nodes: "nodes = before @ [n2] @ later"
    and n2: "leadingComments n2 = Some (cs1 @ [c2] @ cs2)"
    and c2: "strykerCommentDirectiveRegex_exec c2 = Some m2"
    and d2: "directiveType m2 = ''disable''"
    and match2: "matches (mutatorNamesOf (mutators m2))
                   (if scope m2 = Some ''next-line'' then loc n2 else None) (toLowerCase nm) ln"
    and first: "(n1 \<in> set before \<and> (\<exists>cs. leadingComments n1 = Some cs \<and> c1 \<in> set cs)) \<or>
                (n1 = n2 \<and> c1 \<in> set cs1)"
    and c1: "strykerCommentDirectiveRegex_exec c1 = Some m1"
    and d1: "directiveType m1 = ''disable''"
    and match1: "matches (mutatorNamesOf (mutators m1))
                   (if scope m1 = Some ''next-line'' then loc n1 else None) (toLowerCase nm) ln"
    and differ: "reasonOf (optionalReason m1) \<noteq> reasonOf (optionalReason m2)"
    and newer_comments: "\<forall>c \<in> set cs2. \<forall>m. strykerCommentDirectiveRegex_exec c = Some m \<longrightarrow>
                  \<not> matches (mutatorNamesOf (mutators m))
                      (if scope m = Some ''next-line'' then loc n2 else None) (toLowerCase nm) ln"
    and newer_nodes: "\<forall>nd \<in> set later. \<forall>cs. leadingComments nd = Some cs \<longrightarrow>
             (\<forall>c \<in> set cs. \<forall>m. strykerCommentDirectiveRegex_exec c = Some m \<longrightarrow>
                \<not> matches (mutatorNamesOf (mutators m))
                    (if scope m = Some ''next-line'' then loc nd else None) (toLowerCase nm) ln)"
    and located: "\<forall>nd \<in> set nodes. \<forall>cs. leadingComments nd = Some cs \<longrightarrow>
             (\<forall>c \<in> set cs. \<forall>m. strykerCommentDirectiveRegex_exec c = Some m \<longrightarrow>
                scope m = Some ''next-line'' \<longrightarrow> loc nd \<noteq> None)"
  shows "fst (findIgnoreReason ln nm
            (fold (\<lambda>nd v. snd (processStrykerDirectives nd allMutators f v)) nodes w0)) =
           Some (reasonOf (optionalReason m2)) \<and>
         fst (findIgnoreReason ln nm
            (fold (\<lambda>nd v. snd (processStrykerDirectives nd allMutators f v)) nodes w0)) \<noteq>
           Some (reasonOf (optionalReason m1))"
proof -
  let ?walk = "fold (\<lambda>nd v. snd (processStrykerDirectives nd allMutators f v))"
  let ?w = "?walk before w0"
  let ?w2 = "snd (processStrykerDirectives n2 allMutators f ?w)"
  have split: "?walk nodes w0 = ?walk later ?w2"
    unfolding nodes by simp
  have loc2: "\<forall>c' \<in> set (cs1 @ [c2]). \<forall>m'. strykerCommentDirectiveRegex_exec c' = Some m' \<longrightarrow>
      scope m' = Some ''next-line'' \<longrightarrow> loc n2 \<noteq> None"
    using located n2 unfolding nodes by auto
  have "fst (findIgnoreReason ln nm (?walk later ?w2)) = fst (findIgnoreReason ln nm ?w2)"
    by (rule walk_skip [OF newer_nodes])
  also have "\<dots> = Some (reasonOf (optionalReason m2))"
    by (rule processStrykerDirectives_last_match [OF n2 c2 d2 match2 newer_comments loc2])
  finally show ?thesis
    using split differ by simp
qed

theorem newest_matching_disable_wins_witness:
  "fst (findIgnoreReason 3 ''StringLiteral''
     (fold (\<lambda>nd v. snd (processStrykerDirectives nd [] ''a.js'' v))
        [\<lparr>leadingComments = Some ['' Stryker disable all: first''], loc = Some 1\<rparr>,
         \<lparr>leadingComments = Some ['' eslint-disable'',
            '' Stryker disable next-line StringLiteral: second'',
            '' Stryker restore BooleanLiteral''], loc = Some 3\<rparr>,
         \<lparr>leadingComments = Some ['' Stryker disable next-line StringLiteral: third''], loc = Some 8\<rparr>]
        DirectiveBookkeeper)) = Some ''second''"
proof -
  let ?m1 = "\<lparr>directiveType = ''disable'', scope = None, mutators = ''all'',
              optionalReason = Some '' first''\<rparr>"
  let ?m2 = "\<lparr>directiveType = ''disable'', scope = Some ''next-line'', mutators = ''StringLiteral'',
              optionalReason = Some '' second''\<rparr>"
  let ?m3 = "\<lparr>directiveType = ''restore'', scope = None, mutators = ''BooleanLiteral'',
              optionalReason = None\<rparr>"
  let ?m4 = "\<lparr>directiveType = ''disable'', scope = Some ''next-line'', mutators = ''StringLiteral'',
              optionalReason = Some '' third''\<rparr>"
  let ?n1 = "\<lparr>leadingComments = Some ['' Stryker disable all: first''], loc = Some 1\<rparr>"
  let ?n2 = "\<lparr>leadingComments = Some ['' eslint-disable'',
            '' Stryker disable next-line StringLiteral: second'',
            '' Stryker restore BooleanLiteral''], loc = Some 3\<rparr>"
  let ?n3 = "\<lparr>leadingComments = Some ['' Stryker disable next-line StringLiteral: third''], loc = Some 8\<rparr>"
  have c0: "strykerCommentDirectiveRegex_exec '' eslint-disable'' = None"
    by code_simp
  have c1: "strykerCommentDirectiveRegex_exec '' Stryker disable all: first'' = Some ?m1"
    by code_simp
  have c2: "strykerCommentDirectiveRegex_exec '' Stryker disable next-line StringLiteral: second'' = Some ?m2"
    by code_simp
  have c3: "strykerCommentDirectiveRegex_exec '' Stryker restore BooleanLiteral'' = Some ?m3"
    by code_simp
  have c4: "strykerCommentDirectiveRegex_exec '' Stryker disable next-line StringLiteral: third'' = Some ?m4"
    by code_simp
  have r: "reasonOf (Some '' first'') = ''first''" "reasonOf (Some '' second'') = ''second''"
    by code_simp+
  have nodes: "[?n1, ?n2, ?n3] = [?n1] @ [?n2] @ [?n3]" by simp
  have n2: "leadingComments ?n2 =
      Some (['' eslint-disable''] @ ['' Stryker disable next-line StringLiteral: second''] @
            ['' Stryker restore BooleanLiteral''])"
    by simp
  have d2: "directiveType ?m2 = ''disable''" and d1: "directiveType ?m1 = ''disable''" by simp_all
  have match2: "matches (mutatorNamesOf (mutators ?m2))
      (if scope ?m2 = Some ''next-line'' then loc ?n2 else None) (toLowerCase ''StringLiteral'') 3"
    by code_simp
  have first: "(?n1 \<in> set [?n1] \<and>
        (\<exists>cs. leadingComments ?n1 = Some cs \<and> '' Stryker disable all: first'' \<in> set cs)) \<or>
      (?n1 = ?n2 \<and> '' Stryker disable all: first'' \<in> set ['' eslint-disable''])"
    by simp
  have match1: "matches (mutatorNamesOf (mutators ?m1))
      (if scope ?m1 = Some ''next-line'' then loc ?n1 else None) (toLowerCase ''StringLiteral'') 3"
    by code_simp
  have differ: "reasonOf (optionalReason ?m1) \<noteq> reasonOf (optionalReason ?m2)"
    by (simp add: r)
  have no3: "\<not> matches (mutatorNamesOf (mutators ?m3))
      (if scope ?m3 = Some ''next-line'' then loc ?n2 else None) (toLowerCase ''StringLiteral'') 3"
    by code_simp
  have no4: "\<not> matches (mutatorNamesOf (mutators ?m4))
      (if scope ?m4 = Some ''next-line'' then loc ?n3 else None) (toLowerCase ''StringLiteral'') 3"
    by code_simp
  have newer_comments: "\<forall>c \<in> set ['' Stryker restore BooleanLiteral''].
      \<forall>m. strykerCommentDirectiveRegex_exec c = Some m \<longrightarrow>
        \<not> matches (mutatorNamesOf (mutators m))
            (if scope m = Some ''next-line'' then loc ?n2 else None) (toLowerCase ''StringLiteral'') 3"
    using no3 by (simp add: c3)
  have newer_nodes: "\<forall>nd \<in> set [?n3]. \<forall>cs. leadingComments nd = Some cs \<longrightarrow>
      (\<forall>c \<in> set cs. \<forall>m. strykerCommentDirectiveRegex_exec c = Some m \<longrightarrow>
        \<not> matches (mutatorNamesOf (mutators m))
            (if scope m = Some ''next-line'' then loc nd else None) (toLowerCase ''StringLiteral'') 3)"
    using no4 by (simp add: c4)
  have located: "\<forall>nd \<in> set [?n1, ?n2, ?n3]. \<forall>cs. leadingComments nd = Some cs \<longrightarrow>
      (\<forall>c \<in> set cs. \<forall>m. strykerCommentDirectiveRegex_exec c = Some m \<longrightarrow>
        scope m = Some ''next-line'' \<longrightarrow> loc nd \<noteq> None)"
    by simp
  show ?thesis
    using newest_matching_disable_wins [OF nodes n2 c2 d2 match2 first c1 d1 match1 differ
        newer_comments newer_nodes located, of "[]" "''a.js''" DirectiveBookkeeper]
    by (simp add: r)
qed

section \<open>Unused directives\<close>

text \<open>
  C3, as the code has it. Every call of \<open>collect\<close> made by \<open>processStrykerDirectives\<close>
  passes the same location argument \<open>{ line: -1, position: 0 }\<close>, whatever the starting
  line of the node is and whether the node has a location at all: the argument is an
  offset of one line up relative to the node, not the number of the line above it. The
  calls the collector had received before stay as they were.
\<close>

theorem unused_anchor_is_fixed_offset:
  "take (length (collected w)) (collected (snd (processStrykerDirectives nd allMutators f w))) =
     collected w \<and>
   (\<forall>call \<in> set (drop (length (collected w))
                    (collected (snd (processStrykerDirectives nd allMutators f w)))).
      collectOffset call = \<lparr>offsetLine = - 1, offsetPosition = 0\<rparr>)"
proof (cases "leadingComments nd")
  case None
  then show ?thesis by (simp add: processStrykerDirectives_def)
next
  case (Some comments)
  from forEachDirective_collected
    [of nd allMutators f "List.map_filter strykerCommentDirectiveRegex_exec comments" w]
  show ?thesis using Some by (auto simp add: processStrykerDirectives_def)
qed

theorem unused_anchor_is_fixed_offset_witness:
  "length (collected (snd (processStrykerDirectives
      \<lparr>leadingComments = Some ['' Stryker disable Typofied''], loc = Some 5\<rparr>
      [\<lparr>name = ''StringLiteral''\<rparr>] ''a.js'' DirectiveBookkeeper))) = 1 \<and>
   map collectOffset (collected (snd (processStrykerDirectives
      \<lparr>leadingComments = Some ['' Stryker disable Typofied''], loc = Some 5\<rparr>
      [\<lparr>name = ''StringLiteral''\<rparr>] ''a.js'' DirectiveBookkeeper))) =
     [\<lparr>offsetLine = - 1, offsetPosition = 0\<rparr>]"
proof -
  let ?w = "snd (processStrykerDirectives
      \<lparr>leadingComments = Some ['' Stryker disable Typofied''], loc = Some 5\<rparr>
      [\<lparr>name = ''StringLiteral''\<rparr>] ''a.js'' DirectiveBookkeeper)"
  have len: "length (collected ?w) = 1"
    by code_simp
  then obtain call where call: "collected ?w = [call]"
    by (cases "collected ?w") simp_all
  have "\<forall>call \<in> set (drop (length (collected DirectiveBookkeeper)) (collected ?w)).
      collectOffset call = \<lparr>offsetLine = - 1, offsetPosition = 0\<rparr>"
    using unused_anchor_is_fixed_offset
      [of DirectiveBookkeeper "\<lparr>leadingComments = Some ['' Stryker disable Typofied''], loc = Some 5\<rparr>"
        "[\<lparr>name = ''StringLiteral''\<rparr>]" "''a.js''"]
    by blast
  then show ?thesis
    using len call by (simp add: DirectiveBookkeeper_def)
qed

text \<open>
  C3 as stated fails: for a node starting at line 5 with an unknown mutator name in its
  directive, the line field of the location passed to the collector is -1, not 5 - 1.
\<close>

theorem unused_anchor_line_counterexample:
  "map (offsetLine \<circ> collectOffset) (collected (snd (processStrykerDirectives
      \<lparr>leadingComments = Some ['' Stryker disable Typofied''], loc = Some 5\<rparr>
      [\<lparr>name = ''StringLiteral''\<rparr>] ''a.js'' DirectiveBookkeeper))) = [- 1] \<and>
   map (offsetLine \<circ> collectOffset) (collected (snd (processStrykerDirectives
      \<lparr>leadingComments = Some ['' Stryker disable Typofied''], loc = Some 5\<rparr>
      [\<lparr>name = ''StringLiteral''\<rparr>] ''a.js'' DirectiveBookkeeper))) \<noteq> [5 - 1]"
  by code_simp

text \<open>
  C4 fails on the code for a wildcard that is not written in lower case. The filter
  compares the trimmed token with \<open>'all'\<close> by \<open>!==\<close>, without the \<open>toLowerCase\<close> that
  both the rule's names and the registry comparison get. So for the directive
  \<open>Stryker disable ALL\<close> the token \<open>ALL\<close> is reported as unused, while the rule pushed for
  the same directive holds the name \<open>all\<close> and suppresses every mutator.
\<close>

theorem uppercase_wildcard_reported_unused:
  "map (mutantMutatorName \<circ> collectMutant) (collected (snd (processStrykerDirectives
      \<lparr>leadingComments = Some ['' Stryker disable ALL''], loc = Some 5\<rparr>
      [\<lparr>name = ''StringLiteral''\<rparr>] ''a.js'' DirectiveBookkeeper))) = [''ALL''] \<and>
   map (mutantIgnoreReason \<circ> collectMutant) (collected (snd (processStrykerDirectives
      \<lparr>leadingComments = Some ['' Stryker disable ALL''], loc = Some 5\<rparr>
      [\<lparr>name = ''StringLiteral''\<rparr>] ''a.js'' DirectiveBookkeeper))) =
     [''Unused '' @ [CHR 0x27] @ ''Stryker disable'' @ [CHR 0x27] @ '' directive''] \<and>
   mutatorNames (currentIgnoreRule (snd (processStrykerDirectives
      \<lparr>leadingComments = Some ['' Stryker disable ALL''], loc = Some 5\<rparr>
      [\<lparr>name = ''StringLiteral''\<rparr>] ''a.js'' DirectiveBookkeeper))) = [''all''] \<and>
   fst (findIgnoreReason 7 ''StringLiteral'' (snd (processStrykerDirectives
      \<lparr>leadingComments = Some ['' Stryker disable ALL''], loc = Some 5\<rparr>
      [\<lparr>name = ''StringLiteral''\<rparr>] ''a.js'' DirectiveBookkeeper))) = Some ''Ignored using a comment'' \<and>
   collected (snd (processStrykerDirectives
      \<lparr>leadingComments = Some ['' Stryker disable all''], loc = Some 5\<rparr>
      [\<lparr>name = ''StringLiteral''\<rparr>] ''a.js'' DirectiveBookkeeper)) = []"
  by code_simp

section \<open>Scope\<close>

text \<open>
  C5, as the code has it. A disable or restore directive is processed; a mutator name
  is covered when the rule's names hold its lower-cased form or the wildcard, and the
  effect is the reason for a disable directive and no reason for a restore directive. If
  the directive is next-line scoped, a query for a covered name gets the effect at the
  starting line of the node and only there; at every other line, and for every other
  name, it gets the answer of the older chain. If the directive has no next-line scope,
  the pushed rule stores no line, and a query for a covered name gets the effect at every
  line number, lines before the node included.
\<close>

theorem scope_of_pushed_rule:
  assumes c: "strykerCommentDirectiveRegex_exec c = Some m"
    and n: "leadingComments nd = Some [c]"
    and d: "directiveType m = ''disable'' \<or> directiveType m = ''restore''"
    and w1: "w1 = snd (processStrykerDirectives nd allMutators f w0)"
    and e: "effect = (if directiveType m = ''disable'' then Some (reasonOf (optionalReason m)) else None)"
    and covered: "covered = (Array_includes (mutatorNamesOf (mutators m)) (toLowerCase nm) \<or>
                             Array_includes (mutatorNamesOf (mutators m)) WILDCARD)"
  shows "(scope m = Some ''next-line'' \<longrightarrow>
            (\<forall>ln. fst (findIgnoreReason ln nm w1) =
               (if covered \<and> loc nd = Some ln then effect else fst (findIgnoreReason ln nm w0)))) \<and>
         (scope m \<noteq> Some ''next-line'' \<longrightarrow>
            (\<forall>ln. fst (findIgnoreReason ln nm w1) =
               (if covered then effect else fst (findIgnoreReason ln nm w0))))"
proof -
  have r: "directiveType m = ''restore'' \<Longrightarrow> directiveType m \<noteq> ''disable''" by auto
  show ?thesis
  proof (cases "scope m = Some ''next-line'' \<and> loc nd = None")
    case True
    then show ?thesis
      using d unfolding w1 processStrykerDirectives_single [OF n c]
      by (auto simp add: processDirective_def Let_def findIgnoreReason_def)
  next
    case False
    then have l: "scope m = Some ''next-line'' \<longrightarrow> loc nd \<noteq> None" by simp
    show ?thesis
      using d r l unfolding w1 e covered processStrykerDirectives_single [OF n c]
      by (auto simp add: processDirective_disable [OF _ l] processDirective_restore [OF _ l]
          findIgnoreReason_def matches_def)
  qed
qed

theorem scope_of_pushed_rule_witness:
  "fst (findIgnoreReason 10 ''StringLiteral'' (snd (processStrykerDirectives
      \<lparr>leadingComments = Some ['' Stryker disable next-line StringLiteral''], loc = Some 10\<rparr>
      [] ''a.js'' DirectiveBookkeeper))) = Some ''Ignored using a comment'' \<and>
   fst (findIgnoreReason 11 ''StringLiteral'' (snd (processStrykerDirectives
      \<lparr>leadingComments = Some ['' Stryker disable next-line StringLiteral''], loc = Some 10\<rparr>
      [] ''a.js'' DirectiveBookkeeper))) = None \<and>
   fst (findIgnoreReason 3 ''StringLiteral'' (snd (processStrykerDirectives
      \<lparr>leadingComments = Some ['' Stryker disable StringLiteral''], loc = Some 10\<rparr>
      [] ''a.js'' DirectiveBookkeeper))) = Some ''Ignored using a comment''"
proof -
  let ?m1 = "\<lparr>directiveType = ''disable'', scope = Some ''next-line'', mutators = ''StringLiteral'',
              optionalReason = None\<rparr>"
  let ?m2 = "\<lparr>directiveType = ''disable'', scope = None, mutators = ''StringLiteral'',
              optionalReason = None\<rparr>"
  have c1: "strykerCommentDirectiveRegex_exec '' Stryker disable next-line StringLiteral'' = Some ?m1"
    by code_simp
  have c2: "strykerCommentDirectiveRegex_exec '' Stryker disable StringLiteral'' = Some ?m2"
    by code_simp
  have nm1: "Array_includes (mutatorNamesOf (mutators ?m1)) (toLowerCase ''StringLiteral'') \<or>
             Array_includes (mutatorNamesOf (mutators ?m1)) WILDCARD"
    by code_simp
  have nm2: "Array_includes (mutatorNamesOf (mutators ?m2)) (toLowerCase ''StringLiteral'') \<or>
             Array_includes (mutatorNamesOf (mutators ?m2)) WILDCARD"
    by code_simp
  have root: "fst (findIgnoreReason 11 ''StringLiteral'' DirectiveBookkeeper) = None"
    by (simp add: findIgnoreReason_def DirectiveBookkeeper_def)
  show ?thesis
    using root nm1 nm2
      scope_of_pushed_rule [where nm = "''StringLiteral''" and allMutators = "[]" and f = "''a.js''"
          and ?w0.0 = DirectiveBookkeeper
          and nd = "\<lparr>leadingComments = Some ['' Stryker disable next-line StringLiteral''], loc = Some 10\<rparr>",
          OF c1 _ _ refl refl refl]
      scope_of_pushed_rule [where nm = "''StringLiteral''" and allMutators = "[]" and f = "''a.js''"
          and ?w0.0 = DirectiveBookkeeper
          and nd = "\<lparr>leadingComments = Some ['' Stryker disable StringLiteral''], loc = Some 10\<rparr>",
          OF c2 _ _ refl refl refl]
    by (simp add: reasonOf_None)
qed

text \<open>
  C5 as stated fails in its last part: after a file-wide directive on a node that starts
  at line 10, a query at line 3, a line before it, is suppressed too.
\<close>

theorem file_wide_rule_matches_earlier_line:
  "fst (findIgnoreReason 3 ''StringLiteral'' (snd (processStrykerDirectives
      \<lparr>leadingComments = Some ['' Stryker disable all''], loc = Some 10\<rparr>
      [\<lparr>name = ''StringLiteral''\<rparr>] ''a.js'' DirectiveBookkeeper))) = Some ''Ignored using a comment'' \<and>
   fst (findIgnoreReason 3 ''StringLiteral'' (snd (processStrykerDirectives
      \<lparr>leadingComments = Some ['' Stryker disable all''], loc = Some 10\<rparr>
      [\<lparr>name = ''StringLiteral''\<rparr>] ''a.js'' DirectiveBookkeeper))) \<noteq> None"
  by code_simp

section \<open>Default reason\<close>

text \<open>
  C6. A disable directive whose match has no group 4 is processed on a node (one that
  has a location if the directive is next-line scoped). The call returns, the reason of
  the rule it pushes is exactly \<open>Ignored using a comment\<close>, and every query that this
  rule matches returns that string.
\<close>

theorem default_reason_when_absent:
  assumes c: "strykerCommentDirectiveRegex_exec c = Some m"
    and n: "leadingComments nd = Some [c]"
    and d: "directiveType m = ''disable''"
    and r: "optionalReason m = None"
    and l: "scope m = Some ''next-line'' \<longrightarrow> loc nd \<noteq> None"
  shows "fst (processStrykerDirectives nd allMutators f w) = Returned \<and>
         ignoreReason (currentIgnoreRule (snd (processStrykerDirectives nd allMutators f w))) =
           Some ''Ignored using a comment'' \<and>
         (\<forall>ln nm. matches (mutatorNamesOf (mutators m))
                     (if scope m = Some ''next-line'' then loc nd else None) (toLowerCase nm) ln \<longrightarrow>
            fst (findIgnoreReason ln nm (snd (processStrykerDirectives nd allMutators f w))) =
              Some ''Ignored using a comment'')"
  unfolding processStrykerDirectives_single [OF n c]
  by (simp add: processDirective_disable [OF d l] findIgnoreReason_def r reasonOf_None)

theorem default_reason_when_absent_witness:
  "strykerCommentDirectiveRegex_exec '' Stryker disable next-line StringLiteral'' =
     Some \<lparr>directiveType = ''disable'', scope = Some ''next-line'', mutators = ''StringLiteral'',
           optionalReason = None\<rparr> \<and>
   ignoreReason (currentIgnoreRule (snd (processStrykerDirectives
      \<lparr>leadingComments = Some ['' Stryker disable next-line StringLiteral''], loc = Some 4\<rparr>
      [\<lparr>name = ''StringLiteral''\<rparr>] ''a.js'' DirectiveBookkeeper))) = Some ''Ignored using a comment'' \<and>
   fst (findIgnoreReason 4 ''StringLiteral'' (snd (processStrykerDirectives
      \<lparr>leadingComments = Some ['' Stryker disable next-line StringLiteral''], loc = Some 4\<rparr>
      [\<lparr>name = ''StringLiteral''\<rparr>] ''a.js'' DirectiveBookkeeper))) = Some ''Ignored using a comment''"
proof -
  let ?m = "\<lparr>directiveType = ''disable'', scope = Some ''next-line'', mutators = ''StringLiteral'',
           optionalReason = None\<rparr>"
  let ?n = "\<lparr>leadingComments = Some ['' Stryker disable next-line StringLiteral''], loc = Some 4\<rparr>"
  have c: "strykerCommentDirectiveRegex_exec '' Stryker disable next-line StringLiteral'' = Some ?m"
    by code_simp
  have match: "matches (mutatorNamesOf (mutators ?m))
      (if scope ?m = Some ''next-line'' then loc ?n else None) (toLowerCase ''StringLiteral'') 4"
    by code_simp
  show ?thesis
    using c match
      default_reason_when_absent [OF c, of ?n "[\<lparr>name = ''StringLiteral''\<rparr>]" "''a.js''"
        DirectiveBookkeeper]
    by simp
qed

section \<open>One unknown name\<close>

text \<open>
  C7. Among the leading comments of a node exactly one is a directive, a disable
  directive naming exactly one token. The token is not the wildcard, which is exempt from
  the check, under case-insensitive comparison, and its lower-cased form is not the
  lower-cased name of any known mutator; the node has a location if the directive is
  next-line scoped. Then the call returns without throwing and the collector receives
  exactly one more call, whose mutant carries the token and the message
  \<open>Unused 'Stryker disable' directive\<close>.
\<close>

theorem single_unknown_token_one_diagnostic:
  assumes n: "leadingComments nd = Some comments"
    and c: "List.map_filter strykerCommentDirectiveRegex_exec comments = [m]"
    and d: "directiveType m = ''disable''"
    and one: "split (mutators m) = [token]"
    and wild: "toLowerCase (trim token) \<noteq> ''all''"
    and unknown: "\<not> Array_includes (map (\<lambda>x. toLowerCase (name x)) allMutators) (toLowerCase (trim token))"
    and l: "scope m = Some ''next-line'' \<longrightarrow> loc nd \<noteq> None"
  shows "fst (processStrykerDirectives nd allMutators f w) = Returned \<and>
         (\<exists>call. collected (snd (processStrykerDirectives nd allMutators f w)) = collected w @ [call] \<and>
            mutantIgnoreReason (collectMutant call) =
              ''Unused '' @ [CHR 0x27] @ ''Stryker disable'' @ [CHR 0x27] @ '' directive'' \<and>
            mutantMutatorName (collectMutant call) = trim token)"
proof -
  have step: "processStrykerDirectives nd allMutators f w = processDirective nd allMutators f m w"
    using n c by (simp add: processStrykerDirectives_def split: prod.splits outcome.splits)
  have "trim token \<noteq> ''all''"
    using wild toLowerCase_all by auto
  then show ?thesis
    unfolding step using one unknown
    by (simp add: processDirective_disable [OF d l] unusedDirectives_def directivesOf_def WILDCARD_def
        unusedDirective_def)
qed

theorem single_unknown_token_one_diagnostic_witness:
  "fst (processStrykerDirectives
      \<lparr>leadingComments = Some ['' istanbul ignore next'', '' Stryker disable next-line Typofied''],
       loc = Some 5\<rparr>
      [\<lparr>name = ''StringLiteral''\<rparr>, \<lparr>name = ''BooleanLiteral''\<rparr>] ''a.js'' DirectiveBookkeeper) = Returned \<and>
   map (mutantIgnoreReason \<circ> collectMutant) (collected (snd (processStrykerDirectives
      \<lparr>leadingComments = Some ['' istanbul ignore next'', '' Stryker disable next-line Typofied''],
       loc = Some 5\<rparr>
      [\<lparr>name = ''StringLiteral''\<rparr>, \<lparr>name = ''BooleanLiteral''\<rparr>] ''a.js'' DirectiveBookkeeper))) =
     [''Unused '' @ [CHR 0x27] @ ''Stryker disable'' @ [CHR 0x27] @ '' directive'']"
proof -
  let ?m = "\<lparr>directiveType = ''disable'', scope = Some ''next-line'', mutators = ''Typofied'',
             optionalReason = None\<rparr>"
  let ?n = "\<lparr>leadingComments = Some ['' istanbul ignore next'', '' Stryker disable next-line Typofied''],
             loc = Some 5\<rparr>"
  let ?all = "[\<lparr>name = ''StringLiteral''\<rparr>, \<lparr>name = ''BooleanLiteral''\<rparr>]"
  have n: "leadingComments ?n = Some ['' istanbul ignore next'', '' Stryker disable next-line Typofied'']"
    by simp
  have c: "List.map_filter strykerCommentDirectiveRegex_exec
      ['' istanbul ignore next'', '' Stryker disable next-line Typofied''] = [?m]"
    by code_simp
  have d: "directiveType ?m = ''disable''" by simp
  have one: "split (mutators ?m) = [''Typofied'']"
    by code_simp
  have wild: "toLowerCase (trim ''Typofied'') \<noteq> ''all''"
    by code_simp
  have unknown: "\<not> Array_includes (map (\<lambda>x. toLowerCase (name x)) ?all) (toLowerCase (trim ''Typofied''))"
    by code_simp
  have l: "scope ?m = Some ''next-line'' \<longrightarrow> loc ?n \<noteq> None" by simp
  have "fst (processStrykerDirectives ?n ?all ''a.js'' DirectiveBookkeeper) = Returned \<and>
         (\<exists>call. collected (snd (processStrykerDirectives ?n ?all ''a.js'' DirectiveBookkeeper)) =
              collected DirectiveBookkeeper @ [call] \<and>
            mutantIgnoreReason (collectMutant call) =
              ''Unused '' @ [CHR 0x27] @ ''Stryker disable'' @ [CHR 0x27] @ '' directive'' \<and>
            mutantMutatorName (collectMutant call) = trim ''Typofied'')"
    by (rule single_unknown_token_one_diagnostic [OF n c d one wild unknown l])
  then show ?thesis
    by (auto simp add: DirectiveBookkeeper_def)
qed

section \<open>Termination of the resolution\<close>

text \<open>
  C8. After any finite sequence of pushes on a new bookkeeper, the query on the rule
  objects returns, for every mutator name and line, and its result is the one computed
  on the datatype of rules. The root rule returns no reason without delegating, on any
  heap. Every pushed rule has as its previous link the rule that was current when it was
  pushed (reference \<open>k\<close> for the \<open>k\<close>-th object, counted from 0), so each rule delegates to
  exactly one, older rule.
\<close>

theorem findIgnoreReason_terminates:
  "(\<exists>result. heap_findIgnoreReason (fst (pushes args)) (snd (pushes args)) nm ln = Some result) \<and>
   heap_findIgnoreReason (fst (pushes args)) (snd (pushes args)) nm ln =
     Some (Rule_findIgnoreReason (chain args) nm ln) \<and>
   heap_findIgnoreReason heap 0 nm ln = Some None \<and>
   (\<forall>k < length (fst (pushes args)). objPreviousRule (fst (pushes args) ! k) = k)"
  using pushes_refines [of args nm ln] pushes_linear [of args]
  by (simp add: heap_findIgnoreReason_root)

theorem findIgnoreReason_terminates_witness:
  "heap_findIgnoreReason
     (fst (pushes [([''all''], None, Some ''r''), ([''stringliteral''], Some 3, None)]))
     (snd (pushes [([''all''], None, Some ''r''), ([''stringliteral''], Some 3, None)]))
     ''stringliteral'' 3 = Some None \<and>
   heap_findIgnoreReason
     (fst (pushes [([''all''], None, Some ''r''), ([''stringliteral''], Some 3, None)]))
     (snd (pushes [([''all''], None, Some ''r''), ([''stringliteral''], Some 3, None)]))
     ''stringliteral'' 4 = Some (Some ''r'') \<and>
   map objPreviousRule (fst (pushes [([''all''], None, Some ''r''), ([''stringliteral''], Some 3, None)])) =
     [0, 1]"
proof -
  let ?args = "[([''all''], None, Some ''r''), ([''stringliteral''], Some 3, None)]"
  have 1: "Rule_findIgnoreReason (chain ?args) ''stringliteral'' 3 = None"
    by code_simp
  have 2: "Rule_findIgnoreReason (chain ?args) ''stringliteral'' 4 = Some ''r''"
    by code_simp
  have 3: "map objPreviousRule (fst (pushes ?args)) = [0, 1]"
    by code_simp
  show ?thesis
    using findIgnoreReason_terminates [of ?args "''stringliteral''" 3 "[]"]
      findIgnoreReason_terminates [of ?args "''stringliteral''" 4 "[]"] 1 2 3
    by simp
qed

section \<open>Repeated queries\<close>

text \<open>
  C9. From any state of the bookkeeper, after any number of queries (for any lines and
  mutator names) with no call of \<open>processStrykerDirectives\<close> in between, the state is the
  one before the queries, and a query for a line and mutator name returns what it
  returned before them.
\<close>

theorem findIgnoreReason_idempotent:
  "fold (\<lambda>query v. snd (findIgnoreReason (fst query) (snd query) v)) queries w = w \<and>
   fst (findIgnoreReason ln nm
          (fold (\<lambda>query v. snd (findIgnoreReason (fst query) (snd query) v)) queries w)) =
     fst (findIgnoreReason ln nm w)"
proof -
  have "fold (\<lambda>query v. snd (findIgnoreReason (fst query) (snd query) v)) queries w = w"
    by (induction queries) (simp_all add: findIgnoreReason_def)
  then show ?thesis by simp
qed

theorem findIgnoreReason_idempotent_witness:
  "fst (findIgnoreReason 3 ''StringLiteral''
     (fold (\<lambda>query v. snd (findIgnoreReason (fst query) (snd query) v))
        [(3, ''StringLiteral''), (4, ''BooleanLiteral''), (3, ''StringLiteral'')]
        \<lparr>currentIgnoreRule = IgnoreRule [''all''] None (Some ''r'') rootRule, collected = []\<rparr>)) =
   Some ''r''"
proof -
  have "fst (findIgnoreReason 3 ''StringLiteral''
      \<lparr>currentIgnoreRule = IgnoreRule [''all''] None (Some ''r'') rootRule, collected = []\<rparr>) = Some ''r''"
    by code_simp
  then show ?thesis
    using findIgnoreReason_idempotent
      [of "[(3, ''StringLiteral''), (4, ''BooleanLiteral''), (3, ''StringLiteral'')]"
        "\<lparr>currentIgnoreRule = IgnoreRule [''all''] None (Some ''r'') rootRule, collected = []\<rparr>"
        3 "''StringLiteral''"]
    by simp
qed

section \<open>A reason of white space\<close>

text \<open>
  C10, as the code has it. A comment is a disable directive (an optional white space
  character, \<open>Stryker disable\<close>, an optional \<open> next-line\<close>, a space, a non-empty run of name
  characters, a colon) followed by a text that is not empty, consists of white space only
  and does not begin with a line terminator. Then group 4 is captured, the reason is
  trimmed to the empty string, the call returns (on a node that has a location if the
  directive is next-line scoped), the rule it pushes has the reason \<open>""\<close> and not the
  default, and every query that this rule matches returns the empty string.
\<close>

theorem blank_reason_is_empty:
  assumes lead: "lead = [] \<or> (\<exists>x. lead = [x] \<and> isWhiteSpace x)"
    and sc: "sc = [] \<or> sc = '' next-line''"
    and names: "names \<noteq> []" "\<forall>x \<in> set names. isNameChar x"
    and t: "t \<noteq> []" "\<forall>x \<in> set t. isWhiteSpace x" "\<not> isLineTerminator (hd t)"
    and c: "c = lead @ ''Stryker disable'' @ sc @ '' '' @ names @ '':'' @ t"
    and n: "leadingComments nd = Some [c]"
    and l: "sc = '' next-line'' \<longrightarrow> loc nd \<noteq> None"
  shows "(\<exists>m r. strykerCommentDirectiveRegex_exec c = Some m \<and> directiveType m = ''disable'' \<and>
            mutators m = names \<and> optionalReason m = Some r \<and> reasonOf (optionalReason m) = '''') \<and>
         fst (processStrykerDirectives nd allMutators f w) = Returned \<and>
         ignoreReason (currentIgnoreRule (snd (processStrykerDirectives nd allMutators f w))) = Some '''' \<and>
         (\<forall>ln nm. matches (mutatorNamesOf names) (if sc = [] then None else loc nd) (toLowerCase nm) ln \<longrightarrow>
            fst (findIgnoreReason ln nm (snd (processStrykerDirectives nd allMutators f w))) = Some '''')"
proof -
  let ?r = "takeWhile (\<lambda>x. \<not> isLineTerminator x) t"
  let ?m = "\<lparr>directiveType = ''disable'', scope = (if sc = [] then None else Some ''next-line''),
           mutators = names, optionalReason = Some ?r\<rparr>"
  have exec: "strykerCommentDirectiveRegex_exec c = Some ?m"
    unfolding c exec_disable [OF lead sc names] matchReason_text [OF t(1) t(3)] by simp
  have "\<forall>x \<in> set ?r. isWhiteSpace x"
    using t(2) by (meson set_takeWhileD)
  then have "trim ?r = []" by (rule trim_whitespace)
  then have empty: "reasonOf (optionalReason ?m) = ''''"
    by (simp add: reasonOf_def)
  have d: "directiveType ?m = ''disable''" by simp
  have l': "scope ?m = Some ''next-line'' \<longrightarrow> loc nd \<noteq> None"
    using sc l by auto
  have step: "processStrykerDirectives nd allMutators f w = processDirective nd allMutators f ?m w"
    by (rule processStrykerDirectives_single [OF n exec])
  have "\<exists>m r. strykerCommentDirectiveRegex_exec c = Some m \<and> directiveType m = ''disable'' \<and>
            mutators m = names \<and> optionalReason m = Some r \<and> reasonOf (optionalReason m) = ''''"
    using exec empty by (intro exI [of _ ?m] exI [of _ ?r]) simp
  moreover have "fst (processStrykerDirectives nd allMutators f w) = Returned"
    unfolding step by (simp add: processDirective_disable [OF d l'])
  moreover have "ignoreReason (currentIgnoreRule (snd (processStrykerDirectives nd allMutators f w))) = Some ''''"
    unfolding step using empty by (simp add: processDirective_disable [OF d l'])
  moreover have "\<forall>ln nm. matches (mutatorNamesOf names) (if sc = [] then None else loc nd) (toLowerCase nm) ln \<longrightarrow>
            fst (findIgnoreReason ln nm (snd (processStrykerDirectives nd allMutators f w))) = Some ''''"
    unfolding step using empty sc
    by (auto simp add: processDirective_disable [OF d l'] findIgnoreReason_def)
  ultimately show ?thesis by blast
qed

theorem blank_reason_is_empty_witness:
  "strykerCommentDirectiveRegex_exec ''Stryker disable Foo: '' =
     Some \<lparr>directiveType = ''disable'', scope = None, mutators = ''Foo'', optionalReason = Some '' ''\<rparr> \<and>
   ignoreReason (currentIgnoreRule (snd (processStrykerDirectives
      \<lparr>leadingComments = Some [''Stryker disable Foo: ''], loc = Some 2\<rparr> [\<lparr>name = ''Foo''\<rparr>] ''a.js''
      DirectiveBookkeeper))) = Some '''' \<and>
   fst (findIgnoreReason 9 ''foo'' (snd (processStrykerDirectives
      \<lparr>leadingComments = Some [''Stryker disable Foo: ''], loc = Some 2\<rparr> [\<lparr>name = ''Foo''\<rparr>] ''a.js''
      DirectiveBookkeeper))) = Some ''''"
proof -
  let ?n = "\<lparr>leadingComments = Some [''Stryker disable Foo: ''], loc = Some 2\<rparr>"
  have exec: "strykerCommentDirectiveRegex_exec ''Stryker disable Foo: '' =
     Some \<lparr>directiveType = ''disable'', scope = None, mutators = ''Foo'', optionalReason = Some '' ''\<rparr>"
    by code_simp
  have names: "''Foo'' \<noteq> []" "\<forall>x \<in> set ''Foo''. isNameChar x"
    by (simp_all add: isNameChar_def)
  have t: "'' '' \<noteq> []" "\<forall>x \<in> set '' ''. isWhiteSpace x" "\<not> isLineTerminator (hd '' '')"
    by (simp_all add: isWhiteSpace_def isLineTerminator_def)
  have c: "''Stryker disable Foo: '' = [] @ ''Stryker disable'' @ [] @ '' '' @ ''Foo'' @ '':'' @ '' ''"
    by simp
  have n: "leadingComments ?n = Some [''Stryker disable Foo: '']" by simp
  have match: "matches (mutatorNamesOf ''Foo'') (if ([]::string) = [] then None else loc ?n)
      (toLowerCase ''foo'') 9"
    by code_simp
  show ?thesis
    using exec match
      blank_reason_is_empty [OF _ _ names t c n, of "[\<lparr>name = ''Foo''\<rparr>]" "''a.js''" DirectiveBookkeeper]
    by simp
qed

text \<open>
  C10 as stated fails when the white space after the colon begins with a line
  terminator: \<open>.\<close> does not match it, group 4 is absent and the pushed rule gets the
  default reason.
\<close>

theorem line_terminator_after_colon_counterexample:
  "isWhiteSpace (CHR 0x0A) \<and>
   strykerCommentDirectiveRegex_exec ('' Stryker disable Foo:'' @ [CHR 0x0A]) =
     Some \<lparr>directiveType = ''disable'', scope = None, mutators = ''Foo'', optionalReason = None\<rparr> \<and>
   ignoreReason (currentIgnoreRule (snd (processStrykerDirectives
      \<lparr>leadingComments = Some ['' Stryker disable Foo:'' @ [CHR 0x0A]], loc = Some 2\<rparr>
      [\<lparr>name = ''Foo''\<rparr>] ''a.js'' DirectiveBookkeeper))) = Some ''Ignored using a comment'' \<and>
   ignoreReason (currentIgnoreRule (snd (processStrykerDirectives
      \<lparr>leadingComments = Some ['' Stryker disable Foo:'' @ [CHR 0x0A]], loc = Some 2\<rparr>
      [\<lparr>name = ''Foo''\<rparr>] ''a.js'' DirectiveBookkeeper))) \<noteq> Some ''''"
  by code_simp

end
